theory Spec2Isabelle
  imports Complex_Main
begin

section \<open>Python primitives used by main.py\<close>

text \<open>
  Strings are lists of characters. The model's alphabet is that of HOL's \<open>char\<close>;
  the decimal digits are the ASCII digits and the white space characters are the ASCII
  ones Python's \<^verbatim>\<open>str.isspace\<close> accepts.
\<close>

datatype py_error =
    ValueError string
  | IndexError
  | KeyError string
  | TypeError
  | UnboundLocalError string
  | FetchException nat string
  | OtherException string

definition newline :: string where
  "newline = [CHR 0x0A]"

definition digit_val :: "char \<Rightarrow> nat option" where
  "digit_val c = map_of
     [(CHR ''0'', 0), (CHR ''1'', 1), (CHR ''2'', 2), (CHR ''3'', 3), (CHR ''4'', 4),
      (CHR ''5'', 5), (CHR ''6'', 6), (CHR ''7'', 7), (CHR ''8'', 8), (CHR ''9'', 9)] c"

definition is_digit :: "char \<Rightarrow> bool" where
  "is_digit c = (digit_val c \<noteq> None)"

definition digit_char :: "nat \<Rightarrow> char" where
  "digit_char d = ''0123456789'' ! d"

text \<open>The decimal digits of a natural number, most significant first (\<^verbatim>\<open>str(n)\<close>).\<close>

fun digits_of :: "nat \<Rightarrow> string" where
  "digits_of n = (if n < 10 then [digit_char n] else digits_of (n div 10) @ [digit_char (n mod 10)])"

definition str_int :: "int \<Rightarrow> string" where
  "str_int i = (if i < 0 then ''-'' @ digits_of (nat (- i)) else digits_of (nat i))"

text \<open>
  The format specifications \<^verbatim>\<open>{i:02d}\<close>, \<^verbatim>\<open>{i:03d}\<close> and \<^verbatim>\<open>{i:04}\<close>: the sign, then zeros
  up to the minimum width, then the digits. A number wider than the field is not cut.
\<close>

definition format_0d :: "nat \<Rightarrow> int \<Rightarrow> string" where
  "format_0d w i =
     (let sign = (if i < 0 then ''-'' else '''');
          ds = digits_of (nat \<bar>i\<bar>)
      in sign @ replicate (w - length sign - length ds) (CHR ''0'') @ ds)"

text \<open>\<^verbatim>\<open>int(x)\<close> on a float rounds towards zero.\<close>

definition int_of_float :: "real \<Rightarrow> int" where
  "int_of_float x = (if x < 0 then \<lceil>x\<rceil> else \<lfloor>x\<rfloor>)"

text \<open>The white space of \<^verbatim>\<open>str.split()\<close> and of \<^verbatim>\<open>int()\<close>.\<close>

definition is_space :: "char \<Rightarrow> bool" where
  "is_space c = (c \<in> set [CHR 0x09, CHR 0x0A, CHR 0x0B, CHR 0x0C, CHR 0x0D,
                           CHR 0x1C, CHR 0x1D, CHR 0x1E, CHR 0x1F, CHR 0x20])"

text \<open>
  \<^verbatim>\<open>s.split()\<close>: the maximal runs of characters that are not white space; \<open>w\<close> is the
  run being read.
\<close>

fun split_ws_loop :: "string \<Rightarrow> string \<Rightarrow> string list" where
  "split_ws_loop w [] = (if w = [] then [] else [w])"
| "split_ws_loop w (c # cs) =
     (if is_space c then (if w = [] then split_ws_loop [] cs else w # split_ws_loop [] cs)
      else split_ws_loop (w @ [c]) cs)"

definition split_ws :: "string \<Rightarrow> string list" where
  "split_ws s = split_ws_loop [] s"

text \<open>\<^verbatim>\<open>s.split(sep)\<close> for a separator of one character: never the empty list.\<close>

fun split_on :: "char \<Rightarrow> string \<Rightarrow> string list" where
  "split_on sep [] = [[]]"
| "split_on sep (c # cs) =
     (if c = sep then [] # split_on sep cs
      else (case split_on sep cs of p # ps \<Rightarrow> (c # p) # ps | [] \<Rightarrow> [[c]]))"

definition endswith :: "string \<Rightarrow> string \<Rightarrow> bool" where
  "endswith s suffix =
     (length suffix \<le> length s \<and> drop (length s - length suffix) s = suffix)"

definition strip :: "string \<Rightarrow> string" where
  "strip s = rev (dropWhile is_space (rev (dropWhile is_space s)))"

fun digits_value :: "nat \<Rightarrow> string \<Rightarrow> nat option" where
  "digits_value acc [] = Some acc"
| "digits_value acc (c # cs) =
     (case digit_val c of None \<Rightarrow> None | Some d \<Rightarrow> digits_value (10 * acc + d) cs)"

text \<open>
  \<^verbatim>\<open>int(s)\<close> on a string: white space around the literal is dropped, one sign is allowed,
  and single underscores may stand between digits (so every group between underscores is
  a non-empty run of digits). Anything else is a \<^verbatim>\<open>ValueError\<close>. Integers are unbounded;
  the interpreter's limit on the number of digits of a literal is not modelled.
\<close>

definition py_int :: "string \<Rightarrow> py_error + int" where
  "py_int s =
     (let t = strip s;
          negative = (case t of c # _ \<Rightarrow> c = CHR ''-'' | [] \<Rightarrow> False);
          body = (case t of c # cs \<Rightarrow> if c = CHR ''-'' \<or> c = CHR ''+'' then cs else t | [] \<Rightarrow> t);
          groups = split_on (CHR ''_'') body
      in if list_ex (\<lambda>g. g = []) groups then Inl (ValueError ''invalid literal for int()'')
         else (case digits_value 0 (concat groups) of
                 None \<Rightarrow> Inl (ValueError ''invalid literal for int()'')
               | Some n \<Rightarrow> Inr (if negative then - int n else int n)))"

section \<open>The pattern of the selection expression\<close>

text \<open>
  Regular expressions with the constructs the pattern of line 70 uses, matched by
  derivatives. \<^verbatim>\<open>re.fullmatch\<close> asks for a match of the whole string, so the anchors
  of the pattern add nothing and are left out.
\<close>

datatype regex =
    Nothing
  | Epsilon
  | Digit
  | Lit char
  | Cat regex regex
  | Alt regex regex
  | Star regex
  | Plus regex

primrec nullable :: "regex \<Rightarrow> bool" where
  "nullable Nothing = False"
| "nullable Epsilon = True"
| "nullable Digit = False"
| "nullable (Lit c) = False"
| "nullable (Cat r s) = (nullable r \<and> nullable s)"
| "nullable (Alt r s) = (nullable r \<or> nullable s)"
| "nullable (Star r) = True"
| "nullable (Plus r) = nullable r"

primrec deriv :: "char \<Rightarrow> regex \<Rightarrow> regex" where
  "deriv c Nothing = Nothing"
| "deriv c Epsilon = Nothing"
| "deriv c Digit = (if is_digit c then Epsilon else Nothing)"
| "deriv c (Lit d) = (if c = d then Epsilon else Nothing)"
| "deriv c (Cat r s) =
     (if nullable r then Alt (Cat (deriv c r) s) (deriv c s) else Cat (deriv c r) s)"
| "deriv c (Alt r s) = Alt (deriv c r) (deriv c s)"
| "deriv c (Star r) = Cat (deriv c r) (Star r)"
| "deriv c (Plus r) = Cat (deriv c r) (Star r)"

definition fullmatch :: "regex \<Rightarrow> string \<Rightarrow> bool" where
  "fullmatch r s = nullable (foldl (\<lambda>r c. deriv c r) r s)"

text \<open>\<^verbatim>\<open>(\d+|\d+-\d+)\<close>\<close>

definition token_pattern :: regex where
  "token_pattern = Alt (Plus Digit) (Cat (Plus Digit) (Cat (Lit (CHR ''-'')) (Plus Digit)))"

text \<open>\<^verbatim>\<open>^(\d+|\d+-\d+)(,(\d+|\d+-\d+))*$\<close>\<close>

definition pattern :: regex where
  "pattern = Cat token_pattern (Star (Cat (Lit (CHR '','')) token_pattern))"

section \<open>Parsing the selection expression\<close>

text \<open>
  \<^verbatim>\<open>start, end = map(int, part.split("-"))\<close> (line 81): the pieces are converted in
  order while they are unpacked, and any number of pieces other than two is a
  \<^verbatim>\<open>ValueError\<close> as well.
\<close>

definition unpack_range :: "string \<Rightarrow> py_error + int \<times> int" where
  "unpack_range part =
     (case split_on (CHR ''-'') part of
        [a, b] \<Rightarrow>
          (case py_int a of
             Inl e \<Rightarrow> Inl e
           | Inr start \<Rightarrow> (case py_int b of Inl e \<Rightarrow> Inl e | Inr end \<Rightarrow> Inr (start, end)))
      | [a] \<Rightarrow>
          (case py_int a of
             Inl e \<Rightarrow> Inl e
           | Inr _ \<Rightarrow> Inl (ValueError ''not enough values to unpack''))
      | a # b # c # _ \<Rightarrow>
          (case py_int a of
             Inl e \<Rightarrow> Inl e
           | Inr _ \<Rightarrow>
               (case py_int b of
                  Inl e \<Rightarrow> Inl e
                | Inr _ \<Rightarrow>
                    (case py_int c of
                       Inl e \<Rightarrow> Inl e
                     | Inr _ \<Rightarrow> Inl (ValueError ''too many values to unpack''))))
      | [] \<Rightarrow> Inl (ValueError ''not enough values to unpack''))"

text \<open>The loop of lines 79-86 over the parts, with the set \<open>numbers\<close> built so far.\<close>

fun parse_parts :: "string list \<Rightarrow> int set \<Rightarrow> py_error + int set" where
  "parse_parts [] numbers = Inr numbers"
| "parse_parts (part # parts) numbers =
     (if CHR ''-'' \<in> set part then
        (case unpack_range part of
           Inl e \<Rightarrow> Inl e
         | Inr (start, end) \<Rightarrow>
             if start > end then Inl (ValueError ''Invalid range'')
             else parse_parts parts (numbers \<union> {start..end}))
      else
        (case py_int part of
           Inl e \<Rightarrow> Inl e
         | Inr n \<Rightarrow> parse_parts parts (insert n numbers)))"

text \<open>\<^verbatim>\<open>validate_and_parse_input\<close> (lines 66-88).\<close>

definition validate_and_parse_input :: "string \<Rightarrow> py_error + int set" where
  "validate_and_parse_input input_str =
     (if input_str = ''all'' then Inr {}
      else if \<not> fullmatch pattern input_str then Inl (ValueError ''Invalid input format'')
      else parse_parts (split_on (CHR '','') input_str) {})"

section \<open>Timestamps\<close>

text \<open>
  \<^verbatim>\<open>decimal_to_vtt_time\<close> (lines 31-39). Seconds are real numbers here: the rounding of
  the floating-point product in line 33 is outside the model.
\<close>

definition decimal_to_vtt_time :: "real \<Rightarrow> string" where
  "decimal_to_vtt_time decimal_seconds =
     (let seconds = int_of_float decimal_seconds;
          milliseconds = int_of_float ((decimal_seconds - of_int seconds) * 1000);
          hours = seconds div 3600;
          minutes = (seconds mod 3600) div 60;
          seconds' = seconds mod 60
      in format_0d 2 hours @ '':'' @ format_0d 2 minutes @ '':'' @ format_0d 2 seconds'
           @ ''.'' @ format_0d 3 milliseconds)"

section \<open>Transcoding cues\<close>

record cue =
  cue_start :: real
  cue_end :: real
  cue_text :: string
  cue_newParagraph :: bool

text \<open>The loop of \<^verbatim>\<open>process_video\<close> (lines 49-56), with \<open>idx\<close> the counter of \<^verbatim>\<open>enumerate\<close>.\<close>

fun transcode_loop :: "nat \<Rightarrow> cue list \<Rightarrow> string \<times> string \<Rightarrow> string \<times> string" where
  "transcode_loop idx [] (vtt, raw) = (vtt, raw)"
| "transcode_loop idx (c # cues) (vtt, raw) =
     (let vtt1 = vtt @ str_int (int idx) @ newline;
          vtt2 = vtt1 @ decimal_to_vtt_time (cue_start c) @ '' --> ''
                   @ decimal_to_vtt_time (cue_end c) @ newline;
          vtt3 = vtt2 @ cue_text c @ newline @ newline;
          raw1 = (if cue_newParagraph c then raw @ newline else raw);
          raw2 = raw1 @ cue_text c
      in transcode_loop (Suc idx) cues (vtt3, raw2))"

text \<open>Lines 47-56: the two accumulators start as the empty text and the header.\<close>

definition transcode :: "cue list \<Rightarrow> string \<times> string" where
  "transcode cues = transcode_loop 0 cues (''WEBVTT'' @ newline @ newline, '''')"

section \<open>The outside world\<close>

text \<open>
  What the program does to the outside is recorded as a trace of events, in order.
  Console lines are kept as structured messages rather than formatted text.
\<close>

datatype message =
    Retry_notice nat real
  | Skipped string
  | Found_existing nat
  | Error_line py_error
  | Fetching_until int
  | Video_done int
  | Video_error int py_error

datatype event =
    Session_open
  | Get string
  | Sleep real
  | Print message
  | Makedirs string
  | Write_file string string

text \<open>
  One \<^verbatim>\<open>session.get(url)\<close> followed by \<^verbatim>\<open>raise_for_status()\<close> and \<^verbatim>\<open>json()\<close>
  either yields the decoded JSON value or raises a \<^verbatim>\<open>RequestException\<close>.
\<close>

datatype 'j response = Json 'j | RequestException string

text \<open>
  The environment of a run: \<open>net k url\<close> is what the server answers to the request
  number \<open>k\<close> of the run (counted from 0) when it asks for \<open>url\<close>; \<open>jitter k\<close> is the
  value number \<open>k\<close> drawn by \<^verbatim>\<open>random.uniform(0, 1)\<close>; \<open>listing\<close> is the content of the
  directory \<^verbatim>\<open>transcripts\<close> as \<^verbatim>\<open>os.listdir\<close> gives it, or \<open>None\<close> when the directory
  does not exist; \<open>sanitize\<close> is the function of the package \<^verbatim>\<open>sanitize_filename\<close>.
\<close>

record 'j env =
  net :: "nat \<Rightarrow> string \<Rightarrow> 'j response"
  jitter :: "nat \<Rightarrow> real"
  listing :: "string list option"
  sanitize :: "string \<Rightarrow> string"

record state =
  gets :: nat
  draws :: nat
  trace :: "event list"

definition emit :: "event list \<Rightarrow> state \<Rightarrow> state" where
  "emit es st = st\<lparr>trace := trace st @ es\<rparr>"

section \<open>Fetching with backoff\<close>

text \<open>
  The loop of \<^verbatim>\<open>fetch_with_backoff\<close> (lines 16-29) from the value \<open>attempt\<close> of the loop
  variable on. The result \<open>Inr None\<close> is Python's \<^verbatim>\<open>None\<close>, returned when the loop ends
  without a \<^verbatim>\<open>return\<close>. Delays are real numbers.
\<close>

function attempts ::
  "'j env \<Rightarrow> string \<Rightarrow> nat \<Rightarrow> real \<Rightarrow> nat \<Rightarrow> state \<Rightarrow> (py_error + 'j option) \<times> state" where
  "attempts env url max_retries initial_delay attempt st =
     (if attempt < max_retries then
        (let st1 = emit [Get url] (st\<lparr>gets := Suc (gets st)\<rparr>) in
         case net env (gets st) url of
           Json j \<Rightarrow> (Inr (Some j), st1)
         | RequestException e \<Rightarrow>
             if attempt = max_retries - 1 then (Inl (FetchException max_retries e), st1)
             else
               (let delay = initial_delay * 2 ^ attempt + jitter env (draws st1);
                    st2 = emit [Print (Retry_notice (attempt + 1) delay), Sleep delay]
                            (st1\<lparr>draws := Suc (draws st1)\<rparr>)
                in attempts env url max_retries initial_delay (attempt + 1) st2))
      else (Inr None, st))"
  by pat_completeness auto
termination
  by (relation "measure (\<lambda>(env, url, max_retries, initial_delay, attempt, st). max_retries - attempt)")
     auto

definition fetch_with_backoff ::
  "'j env \<Rightarrow> string \<Rightarrow> nat \<Rightarrow> real \<Rightarrow> state \<Rightarrow> (py_error + 'j option) \<times> state" where
  "fetch_with_backoff env url max_retries initial_delay st =
     attempts env url max_retries initial_delay 0 st"

section \<open>The catalog and the videos\<close>

text \<open>
  The JSON the program reads, by shape: a plan object whose three fields may each be
  absent, a catalog entry with an integer id and an optional plan, and a response body
  that holds either the modules of the catalog or the cues of a transcript.
\<close>

record plan =
  titleJP :: "string option"
  titleEN :: "string option"
  transcriptId :: "int option"

record entry =
  entry_id :: int
  entry_plan :: "plan option"

datatype body = Catalog "entry list" | Transcript "cue list"

record video =
  video_id :: int
  title :: string
  transcript_id :: int

text \<open>\<^verbatim>\<open>website_content["data"]["modules"]\<close> and \<^verbatim>\<open>transcript_data["data"]["cues"]\<close>.\<close>

definition modules :: "body option \<Rightarrow> py_error + entry list" where
  "modules content =
     (case content of
        None \<Rightarrow> Inl TypeError
      | Some (Catalog ms) \<Rightarrow> Inr ms
      | Some (Transcript _) \<Rightarrow> Inl (KeyError ''modules''))"

definition cues :: "body option \<Rightarrow> py_error + cue list" where
  "cues content =
     (case content of
        None \<Rightarrow> Inl TypeError
      | Some (Transcript cs) \<Rightarrow> Inr cs
      | Some (Catalog _) \<Rightarrow> Inl (KeyError ''cues''))"

definition catalog_url :: string where
  "catalog_url = ''https://cijapanese.com/api/v1/content''"

definition transcript_url :: "video \<Rightarrow> string" where
  "transcript_url v =
     ''https://cijapanese.com/api/v1/transcript?transcriptId='' @ str_int (transcript_id v)"

text \<open>\<^verbatim>\<open>process_video\<close> (lines 41-63).\<close>

definition process_video :: "body env \<Rightarrow> video \<Rightarrow> state \<Rightarrow> (py_error + unit) \<times> state" where
  "process_video env v st =
     (case fetch_with_backoff env (transcript_url v) 5 1 st of
        (Inl e, st1) \<Rightarrow> (Inl e, st1)
      | (Inr transcript_data, st1) \<Rightarrow>
          (case cues transcript_data of
             Inl e \<Rightarrow> (Inl e, st1)
           | Inr cs \<Rightarrow>
               (let (vtt, raw) = transcode cs;
                    base = ''transcripts/'' @ format_0d 4 (video_id v) @ '' ''
                             @ sanitize env (title v)
                in (Inr (),
                    emit [Makedirs ''transcripts'',
                          Write_file (base @ ''.vtt'') vtt,
                          Write_file (base @ ''.txt'') raw] st1))))"

section \<open>The index of existing ids\<close>

text \<open>Lines 97-98, the body of the \<^verbatim>\<open>try\<close>.\<close>

definition filename_id :: "string \<Rightarrow> py_error + int" where
  "filename_id filename =
     (case split_ws filename of
        [] \<Rightarrow> Inl IndexError
      | id_str # _ \<Rightarrow> py_int id_str)"

text \<open>\<^verbatim>\<open>except (IndexError, ValueError)\<close>\<close>

fun caught_by_scan :: "py_error \<Rightarrow> bool" where
  "caught_by_scan IndexError = True"
| "caught_by_scan (ValueError _) = True"
| "caught_by_scan _ = False"

text \<open>The loop of lines 94-101 over the names of the directory.\<close>

fun scan_loop :: "string list \<Rightarrow> int set \<Rightarrow> state \<Rightarrow> (py_error + int set) \<times> state" where
  "scan_loop [] existing_ids st = (Inr existing_ids, st)"
| "scan_loop (filename # rest) existing_ids st =
     (if endswith filename ''.vtt'' then
        (case filename_id filename of
           Inr i \<Rightarrow> scan_loop rest (insert i existing_ids) st
         | Inl e \<Rightarrow>
             if caught_by_scan e then scan_loop rest existing_ids (emit [Print (Skipped filename)] st)
             else (Inl e, st))
      else scan_loop rest existing_ids st)"

text \<open>\<^verbatim>\<open>get_existing_ids\<close> (lines 91-106).\<close>

definition get_existing_ids :: "'j env \<Rightarrow> state \<Rightarrow> (py_error + int set) \<times> state" where
  "get_existing_ids env st =
     (case (case listing env of
              None \<Rightarrow> (Inr {}, st)
            | Some names \<Rightarrow> scan_loop names {} st) of
        (Inl e, st1) \<Rightarrow> (Inl e, st1)
      | (Inr existing_ids, st1) \<Rightarrow>
          (Inr existing_ids,
           if card existing_ids > 0 then emit [Print (Found_existing (card existing_ids))] st1
           else st1))"

section \<open>The main program\<close>

text \<open>Lines 129-131: the largest id of the catalog, at least 1.\<close>

fun max_id_loop :: "entry list \<Rightarrow> int \<Rightarrow> int" where
  "max_id_loop [] max_id = max_id"
| "max_id_loop (v # vs) max_id = max_id_loop vs (max max_id (entry_id v))"

text \<open>
  Lines 128-139: with \<open>ids\<close> as parsed, the set of ids to work on. The catalog is only
  looked into when \<open>ids\<close> is empty.
\<close>

definition resolve_ids ::
  "'j env \<Rightarrow> body option \<Rightarrow> int set \<Rightarrow> state \<Rightarrow> (py_error + int set) \<times> state" where
  "resolve_ids env website_content ids st =
     (case (if card ids = 0 then
              (case modules website_content of
                 Inl e \<Rightarrow> (Inl e, st)
               | Inr ms \<Rightarrow>
                   (let max_id = max_id_loop ms 1
                    in (Inr {1..max_id}, emit [Print (Fetching_until max_id)] st)))
            else (Inr ids, st)) of
        (Inl e, st1) \<Rightarrow> (Inl e, st1)
      | (Inr ids1, st1) \<Rightarrow>
          (case get_existing_ids env st1 of
             (Inl e, st2) \<Rightarrow> (Inl e, st2)
           | (Inr existing_ids, st2) \<Rightarrow>
               (Inr (if card existing_ids > 0 then ids1 - existing_ids else ids1), st2)))"

text \<open>The loop of lines 143-157, with the list \<open>videos\<close> built so far.\<close>

fun collect_videos :: "entry list \<Rightarrow> int set \<Rightarrow> video list \<Rightarrow> py_error + video list" where
  "collect_videos [] ids videos = Inr videos"
| "collect_videos (v # vs) ids videos =
     (if entry_id v \<notin> ids then collect_videos vs ids videos
      else
        (case entry_plan v of
           None \<Rightarrow> collect_videos vs ids videos
         | Some p \<Rightarrow>
             (case transcriptId p of
                None \<Rightarrow> collect_videos vs ids videos
              | Some t \<Rightarrow>
                  (case titleJP p of
                     None \<Rightarrow> Inl (KeyError ''titleJP'')
                   | Some jp \<Rightarrow>
                       (case titleEN p of
                          None \<Rightarrow> Inl (KeyError ''titleEN'')
                        | Some en \<Rightarrow>
                            collect_videos vs ids
                              (videos @ [\<lparr>video_id = entry_id v,
                                          title = jp @ '' | '' @ en,
                                          transcript_id = t\<rparr>]))))))"

text \<open>
  The loop of lines 160-169: whatever \<^verbatim>\<open>process_video\<close> raises is caught and printed,
  and the pause follows in both cases.
\<close>

fun process_videos :: "body env \<Rightarrow> video list \<Rightarrow> state \<Rightarrow> state" where
  "process_videos env [] st = st"
| "process_videos env (v # vs) st =
     (let st1 = (case process_video env v st of
                   (Inr _, s) \<Rightarrow> emit [Print (Video_done (video_id v))] s
                 | (Inl e, s) \<Rightarrow> emit [Print (Video_error (video_id v) e)] s)
      in process_videos env vs (emit [Sleep (1 / 5)] st1))"

text \<open>\<^verbatim>\<open>except ValueError\<close> (line 120)\<close>

fun is_ValueError :: "py_error \<Rightarrow> bool" where
  "is_ValueError (ValueError _) = True"
| "is_ValueError _ = False"

text \<open>
  Lines 118-121: the parsed ids, or no binding of \<open>ids\<close> at all when the
  \<^verbatim>\<open>ValueError\<close> was caught and printed.
\<close>

definition parse_argument :: "string \<Rightarrow> state \<Rightarrow> (py_error + int set option) \<times> state" where
  "parse_argument arg st =
     (case validate_and_parse_input arg of
        Inr ids \<Rightarrow> (Inr (Some ids), st)
      | Inl e \<Rightarrow>
          if is_ValueError e then (Inr None, emit [Print (Error_line e)] st)
          else (Inl e, st))"

text \<open>
  \<^verbatim>\<open>main\<close> (lines 108-169) on the command-line argument \<open>arg\<close>. The result is \<open>Inl e\<close>
  when the exception \<open>e\<close> ends the run.
\<close>

definition main :: "body env \<Rightarrow> string \<Rightarrow> state \<Rightarrow> (py_error + unit) \<times> state" where
  "main env arg st =
     (case parse_argument arg st of
        (Inl e, st1) \<Rightarrow> (Inl e, st1)
      | (Inr ids_binding, st1) \<Rightarrow>
          (case fetch_with_backoff env catalog_url 5 1 (emit [Session_open] st1) of
             (Inl e, st2) \<Rightarrow> (Inl e, st2)
           | (Inr website_content, st2) \<Rightarrow>
               (case ids_binding of
                  None \<Rightarrow> (Inl (UnboundLocalError ''ids''), st2)
                | Some ids \<Rightarrow>
                    (case resolve_ids env website_content ids st2 of
                       (Inl e, st3) \<Rightarrow> (Inl e, st3)
                     | (Inr ids1, st3) \<Rightarrow>
                         (case modules website_content of
                            Inl e \<Rightarrow> (Inl e, st3)
                          | Inr ms \<Rightarrow>
                              (case collect_videos ms ids1 [] of
                                 Inl e \<Rightarrow> (Inl e, st3)
                               | Inr videos \<Rightarrow> (Inr (), process_videos env videos st3)))))))"

definition initial_state :: state where
  "initial_state = \<lparr>gets = 0, draws = 0, trace = []\<rparr>"

section \<open>Notions of the specification\<close>


text \<open>
  The events of one failed attempt that is not the last: the request, the notice and the
  sleep, with the delay of line 27 for the random value number \<open>draw\<close>.
\<close>

definition retry_round :: "'j env \<Rightarrow> string \<Rightarrow> real \<Rightarrow> nat \<Rightarrow> nat \<Rightarrow> event list" where
  "retry_round env url initial_delay attempt draw =
     [Get url,
      Print (Retry_notice (attempt + 1) (initial_delay * 2 ^ attempt + jitter env draw)),
      Sleep (initial_delay * 2 ^ attempt + jitter env draw)]"


fun requests_of :: "event list \<Rightarrow> string list" where
  "requests_of [] = []"
| "requests_of (Get url # es) = url # requests_of es"
| "requests_of (_ # es) = requests_of es"



text \<open>
  An entry the filter selects: its id is requested and it carries a plan that carries a
  transcript reference.
\<close>

definition selected :: "int set \<Rightarrow> entry \<Rightarrow> bool" where
  "selected ids v =
     (entry_id v \<in> ids \<and>
      (case entry_plan v of None \<Rightarrow> False | Some p \<Rightarrow> transcriptId p \<noteq> None))"

text \<open>
  An entry whose plan carries both title fields.
\<close>

definition has_titles :: "entry \<Rightarrow> bool" where
  "has_titles v =
     (case entry_plan v of None \<Rightarrow> False | Some p \<Rightarrow> titleJP p \<noteq> None \<and> titleEN p \<noteq> None)"

text \<open>
  The work item of an entry: its id, the Japanese title, the separator and the English
  title, and its transcript reference; none when a field is absent.
\<close>

definition work_item :: "entry \<Rightarrow> video option" where
  "work_item v =
     (case entry_plan v of
        None \<Rightarrow> None
      | Some p \<Rightarrow>
          (case (transcriptId p, titleJP p, titleEN p) of
             (Some t, Some jp, Some en) \<Rightarrow>
               Some \<lparr>video_id = entry_id v, title = jp @ '' | '' @ en, transcript_id = t\<rparr>
           | _ \<Rightarrow> None))"

text \<open>
  The events that only the processing of a work item produces: a request to another
  address than the catalog's, the directory and file writes, and the report lines.
\<close>

fun item_event :: "event \<Rightarrow> bool" where
  "item_event (Get url) = (url \<noteq> catalog_url)"
| "item_event (Makedirs _) = True"
| "item_event (Write_file _ _) = True"
| "item_event (Print (Video_done _)) = True"
| "item_event (Print (Video_error _ _)) = True"
| "item_event _ = False"

text \<open>
  A name of the directory that gives the id \<open>i\<close>: it ends in \<open>.vtt\<close> and its leading
  token, delimited by white space, reads as the integer \<open>i\<close>.
\<close>

definition recognised :: "string \<Rightarrow> int \<Rightarrow> bool" where
  "recognised filename i =
     (endswith filename ''.vtt'' \<and>
      (case split_ws filename of [] \<Rightarrow> False | id_str # _ \<Rightarrow> py_int id_str = Inr i))"

text \<open>
  A name that ends in \<open>.vtt\<close> and whose leading token does not read as an integer.
\<close>

definition malformed :: "string \<Rightarrow> bool" where
  "malformed filename =
     (endswith filename ''.vtt'' \<and>
      (case split_ws filename of [] \<Rightarrow> True | id_str # _ \<Rightarrow> isl (py_int id_str)))"

text \<open>
  The ids given by the names of a directory.
\<close>

definition existing_index :: "string list \<Rightarrow> int set" where
  "existing_index names = {i. \<exists>filename\<in>set names. recognised filename i}"

text \<open>
  The console lines of the scan of a directory: one per malformed name, in order, then
  the count of ids when there is one.
\<close>

definition scan_log :: "string list \<Rightarrow> event list" where
  "scan_log names =
     map (\<lambda>f. Print (Skipped f)) (filter malformed names)
     @ (if existing_index names = {} then []
        else [Print (Found_existing (card (existing_index names)))])"

text \<open>
  A server whose catalog has one entry, with a transcript reference and no English title.
\<close>

definition untitled_catalog :: "body env" where
  "untitled_catalog =
     \<lparr>net = (\<lambda>k url. Json (Catalog
         [\<lparr>entry_id = 1,
           entry_plan = Some \<lparr>titleJP = Some ''a'', titleEN = None, transcriptId = Some 10\<rparr>\<rparr>])),
      jitter = (\<lambda>k. 0), listing = None, sanitize = (\<lambda>s. s)\<rparr>"

text \<open>
  A catalog for examples, with entries lacking the plan or the transcript reference.
\<close>

definition sample_catalog :: "entry list" where
  "sample_catalog =
     [\<lparr>entry_id = 3, entry_plan = Some \<lparr>titleJP = Some ''c'', titleEN = Some ''C'', transcriptId = Some 30\<rparr>\<rparr>,
      \<lparr>entry_id = 1, entry_plan = Some \<lparr>titleJP = Some ''a'', titleEN = Some ''A'', transcriptId = Some 10\<rparr>\<rparr>,
      \<lparr>entry_id = 2, entry_plan = Some \<lparr>titleJP = None, titleEN = None, transcriptId = None\<rparr>\<rparr>,
      \<lparr>entry_id = 4, entry_plan = None\<rparr>,
      \<lparr>entry_id = 5, entry_plan = Some \<lparr>titleJP = Some ''e'', titleEN = Some ''E'', transcriptId = Some 50\<rparr>\<rparr>]"

text \<open>
  A run after the video 1 was written: the catalog is served at once and the directory
  holds the two files of video 1.
\<close>

definition rerun_env :: "body env" where
  "rerun_env =
     \<lparr>net = (\<lambda>k url. Json (Catalog sample_catalog)),
      jitter = (\<lambda>k. 0),
      listing = Some [''0001 a | A.vtt'', ''0001 a | A.txt''],
      sanitize = (\<lambda>s. s)\<rparr>"

section \<open>Properties of the timestamps\<close>

declare digits_of.simps [simp del]











section \<open>Properties of the transcoder\<close>

lemma transcode_loop_closed_form:
  "transcode_loop idx cs (vtt, raw) =
     (vtt @ concat (map (\<lambda>(i, c). str_int (int i) @ newline
                        @ decimal_to_vtt_time (cue_start c) @ '' --> ''
                        @ decimal_to_vtt_time (cue_end c) @ newline
                        @ cue_text c @ newline @ newline) (enumerate idx cs)),
      raw @ concat (map (\<lambda>c. (if cue_newParagraph c then newline else []) @ cue_text c) cs))"
  by (induction cs arbitrary: idx vtt raw) (simp_all add: Let_def)

text \<open>
  Claim C6. The plain text is the concatenation, in order and with no separator, of the
  cue texts, each preceded by a newline exactly when the cue's new-paragraph flag is set;
  this holds for the first cue too, so a flagged first cue gives a leading newline. The
  cues A (not flagged), B (flagged) give A, newline, B.
\<close>

theorem plain_text_paragraphs:
  "snd (transcode cs) =
     concat (map (\<lambda>c. (if cue_newParagraph c then newline else []) @ cue_text c) cs)
   \<and> snd (transcode (\<lparr>cue_start = a, cue_end = b, cue_text = t, cue_newParagraph = True\<rparr> # cs))
       = newline @ t @ snd (transcode cs)
   \<and> snd (transcode [\<lparr>cue_start = 0, cue_end = 1, cue_text = ''A'', cue_newParagraph = False\<rparr>,
                      \<lparr>cue_start = 1, cue_end = 2, cue_text = ''B'', cue_newParagraph = True\<rparr>])
       = ''A'' @ newline @ ''B''"
  by (simp add: transcode_def transcode_loop_closed_form)


section \<open>Properties of the fetcher\<close>

declare attempts.simps [simp del]

lemma attempts_failures:
  assumes "\<forall>k<m. \<exists>c. net env (gets st + k) url = RequestException c" and "a + m < n"
  shows "attempts env url n d a st =
           attempts env url n d (a + m)
             (st\<lparr>gets := gets st + m, draws := draws st + m,
                 trace := trace st @ concat (map (\<lambda>k. retry_round env url d (a + k) (draws st + k)) [0..<m])\<rparr>)"
  using assms
proof (induction m)
  case 0
  then show ?case by simp
next
  case (Suc m)
  from Suc.prems obtain c where c: "net env (gets st + m) url = RequestException c" by auto
  have lt: "a + m < n" and ne: "a + m \<noteq> n - Suc 0" using Suc.prems(2) by auto
  have "\<forall>k<m. \<exists>c. net env (gets st + k) url = RequestException c" using Suc.prems(1) by simp
  then have "attempts env url n d a st = attempts env url n d (a + m)
             (st\<lparr>gets := gets st + m, draws := draws st + m,
                 trace := trace st @ concat (map (\<lambda>k. retry_round env url d (a + k) (draws st + k)) [0..<m])\<rparr>)"
    using lt by (rule Suc.IH)
  also have "\<dots> = attempts env url n d (a + Suc m)
             (st\<lparr>gets := gets st + Suc m, draws := draws st + Suc m,
                 trace := trace st @ concat (map (\<lambda>k. retry_round env url d (a + k) (draws st + k)) [0..<Suc m])\<rparr>)"
    by (subst attempts.simps) (simp add: lt ne c Let_def emit_def retry_round_def)
  finally show ?case .
qed


lemma requests_of_append: "requests_of (xs @ ys) = requests_of xs @ requests_of ys"
  by (induction xs rule: requests_of.induct) simp_all


lemma requests_of_rounds:
  "requests_of (concat (map (\<lambda>k. retry_round env url d (a + k) (r + k)) [0..<m]))
     = replicate m url"
  by (induction m) (simp_all add: requests_of_append retry_round_def replicate_append_same)


lemma attempts_last_failure:
  assumes "Suc a = n" and "net env (gets st) url = RequestException c"
  shows "attempts env url n d a st =
           (Inl (FetchException n c), emit [Get url] (st\<lparr>gets := Suc (gets st)\<rparr>))"
  using assms by (subst attempts.simps) (auto simp add: Let_def)

lemma attempts_success:
  assumes "a < n" and "net env (gets st) url = Json j"
  shows "attempts env url n d a st =
           (Inr (Some j), emit [Get url] (st\<lparr>gets := Suc (gets st)\<rparr>))"
  using assms by (subst attempts.simps) (simp add: Let_def)

lemma fetch_all_failures:
  assumes "0 < n" and "\<forall>k<n. \<exists>c. net env (gets st + k) url = RequestException c"
  shows "\<exists>c. net env (gets st + (n - 1)) url = RequestException c \<and>
           fetch_with_backoff env url n d st =
             (Inl (FetchException n c),
              st\<lparr>gets := gets st + n, draws := draws st + (n - 1),
                  trace := trace st
                    @ concat (map (\<lambda>k. retry_round env url d k (draws st + k)) [0..<n - 1])
                    @ [Get url]\<rparr>)"
proof -
  from assms obtain c where c: "net env (gets st + (n - 1)) url = RequestException c"
    by (metis diff_less zero_less_one)
  have f: "\<forall>k<n - 1. \<exists>c. net env (gets st + k) url = RequestException c"
    using assms(2) by simp
  have l: "0 + (n - 1) < n" using assms(1) by simp
  have s: "Suc (0 + (n - 1)) = n" using assms(1) by simp
  let ?st = "st\<lparr>gets := gets st + (n - 1), draws := draws st + (n - 1),
                 trace := trace st @ concat (map (\<lambda>k. retry_round env url d (0 + k) (draws st + k)) [0..<n - 1])\<rparr>"
  have c': "net env (gets ?st) url = RequestException c" using c by simp
  have "fetch_with_backoff env url n d st = attempts env url n d (0 + (n - 1)) ?st"
    unfolding fetch_with_backoff_def by (rule attempts_failures[OF f l])
  also have "\<dots> = (Inl (FetchException n c), emit [Get url] (?st\<lparr>gets := Suc (gets ?st)\<rparr>))"
    by (rule attempts_last_failure[OF s c'])
  finally show ?thesis using c assms(1) by (auto simp add: emit_def)
qed

lemma fetch_first_success:
  assumes "m < n" and "\<forall>k<m. \<exists>c. net env (gets st + k) url = RequestException c"
    and "net env (gets st + m) url = Json j"
  shows "fetch_with_backoff env url n d st =
             (Inr (Some j),
              st\<lparr>gets := gets st + (m + 1), draws := draws st + m,
                  trace := trace st
                    @ concat (map (\<lambda>k. retry_round env url d k (draws st + k)) [0..<m])
                    @ [Get url]\<rparr>)"
proof -
  have l: "0 + m < n" using assms(1) by simp
  let ?st = "st\<lparr>gets := gets st + m, draws := draws st + m,
                 trace := trace st @ concat (map (\<lambda>k. retry_round env url d (0 + k) (draws st + k)) [0..<m])\<rparr>"
  have j: "net env (gets ?st) url = Json j" using assms(3) by simp
  have "fetch_with_backoff env url n d st = attempts env url n d (0 + m) ?st"
    unfolding fetch_with_backoff_def by (rule attempts_failures[OF assms(2) l])
  also have "\<dots> = (Inr (Some j), emit [Get url] (?st\<lparr>gets := Suc (gets ?st)\<rparr>))"
    by (rule attempts_success[OF l j])
  finally show ?thesis by (simp add: emit_def)
qed



section \<open>Properties of the catalog filter, the scan and the main program\<close>

lemma collect_videos_unselected:
  "\<not> selected ids v \<Longrightarrow> collect_videos (v # vs) ids acc = collect_videos vs ids acc"
  by (auto simp add: selected_def split: option.splits)

lemma collect_videos_selected_only:
  "collect_videos ms ids acc = collect_videos (filter (selected ids) ms) ids acc"
proof (induction ms arbitrary: acc)
  case Nil
  show ?case by simp
next
  case (Cons v vs)
  show ?case
  proof (cases "selected ids v")
    case False
    have "collect_videos (v # vs) ids acc = collect_videos vs ids acc"
      by (rule collect_videos_unselected[OF False])
    also have "\<dots> = collect_videos (filter (selected ids) vs) ids acc" by (rule Cons.IH)
    also have "filter (selected ids) vs = filter (selected ids) (v # vs)" using False by simp
    finally show ?thesis .
  next
    case True
    then have f: "filter (selected ids) (v # vs) = v # filter (selected ids) vs" by simp
    from True obtain p t where p: "entry_plan v = Some p" "transcriptId p = Some t"
      and i: "entry_id v \<in> ids"
      by (auto simp add: selected_def split: option.splits)
    show ?thesis unfolding f using p i Cons.IH
      by (simp split: option.splits)
  qed
qed

lemma collect_videos_complete:
  assumes "\<forall>v\<in>set ms. selected ids v \<longrightarrow> has_titles v"
  shows "\<exists>vs. collect_videos ms ids acc = Inr (acc @ vs)
           \<and> map Some vs = map work_item (filter (selected ids) ms)"
  using assms
proof (induction ms arbitrary: acc)
  case Nil
  show ?case by simp
next
  case (Cons v ms)
  then have rest: "\<forall>v\<in>set ms. selected ids v \<longrightarrow> has_titles v" by simp
  show ?case
  proof (cases "selected ids v")
    case False
    have f: "filter (selected ids) (v # ms) = filter (selected ids) ms" using False by simp
    from Cons.IH[OF rest, of acc] show ?thesis
      unfolding f collect_videos_unselected[OF False] .
  next
    case True
    with Cons.prems have "has_titles v" by simp
    with True obtain p t jp en where p: "entry_plan v = Some p" "transcriptId p = Some t"
      "titleJP p = Some jp" "titleEN p = Some en" and i: "entry_id v \<in> ids"
      by (auto simp add: selected_def has_titles_def split: option.splits)
    let ?w = "\<lparr>video_id = entry_id v, title = jp @ '' | '' @ en, transcript_id = t\<rparr>"
    from Cons.IH[OF rest, of "acc @ [?w]"] obtain vs where
      vs: "collect_videos ms ids (acc @ [?w]) = Inr ((acc @ [?w]) @ vs)"
          "map Some vs = map work_item (filter (selected ids) ms)" by blast
    have "collect_videos (v # ms) ids acc = Inr (acc @ (?w # vs))"
      using p i vs(1) by simp
    moreover have "map Some (?w # vs) = map work_item (filter (selected ids) (v # ms))"
      using True p vs(2) by (simp add: work_item_def)
    ultimately show ?thesis by blast
  qed
qed

lemma collect_videos_missing_title:
  assumes "\<exists>v\<in>set ms. selected ids v \<and> \<not> has_titles v"
  shows "\<exists>k. collect_videos ms ids acc = Inl (KeyError k) \<and> (k = ''titleJP'' \<or> k = ''titleEN'')"
  using assms
proof (induction ms arbitrary: acc)
  case Nil
  then show ?case by simp
next
  case (Cons v ms)
  show ?case
  proof (cases "selected ids v \<and> \<not> has_titles v")
    case True
    then show ?thesis
      by (auto simp add: selected_def has_titles_def split: option.splits)
  next
    case False
    with Cons.prems have "\<exists>v\<in>set ms. selected ids v \<and> \<not> has_titles v" by auto
    note ih = Cons.IH[OF this]
    show ?thesis
    proof (cases "selected ids v")
      case False
      show ?thesis unfolding collect_videos_unselected[OF False] by (rule ih)
    next
      case True
      with False have "has_titles v" by simp
      with True obtain p t jp en where p: "entry_plan v = Some p" "transcriptId p = Some t"
        "titleJP p = Some jp" "titleEN p = Some en" and i: "entry_id v \<in> ids"
        by (auto simp add: selected_def has_titles_def split: option.splits)
      show ?thesis using p i ih by simp
    qed
  qed
qed

lemma fetch_outcome:
  assumes "0 < n"
  shows "\<exists>m<n. \<exists>r. (r \<noteq> Inr None)
           \<and> fetch_with_backoff env url n d st =
             (r, st\<lparr>gets := gets st + (m + 1), draws := draws st + m,
                   trace := trace st
                     @ concat (map (\<lambda>k. retry_round env url d k (draws st + k)) [0..<m])
                     @ [Get url]\<rparr>)"
proof (cases "\<forall>k<n. \<exists>c. net env (gets st + k) url = RequestException c")
  case True
  from fetch_all_failures[OF assms True, of d] obtain c where
    "fetch_with_backoff env url n d st =
             (Inl (FetchException n c),
              st\<lparr>gets := gets st + n, draws := draws st + (n - 1),
                  trace := trace st
                    @ concat (map (\<lambda>k. retry_round env url d k (draws st + k)) [0..<n - 1])
                    @ [Get url]\<rparr>)" by blast
  moreover have "n - 1 < n" "n - 1 + 1 = n" using assms by simp_all
  moreover have "Inl (FetchException n c) \<noteq> (Inr None :: py_error + 'a option)" by simp
  ultimately show ?thesis by (intro exI[of _ "n - 1"] exI[of _ "Inl (FetchException n c)"]) simp
next
  case False
  define P where "P k \<longleftrightarrow> (\<exists>j. net env (gets st + k) url = Json j)" for k
  from False obtain k0 where k0: "k0 < n" "\<forall>c. net env (gets st + k0) url \<noteq> RequestException c"
    by blast
  have "P k0" unfolding P_def using k0(2) by (cases "net env (gets st + k0) url") auto
  note \<open>k0 < n\<close>
  define m where "m = (LEAST k. P k)"
  have Pm: "P m" unfolding m_def using \<open>P k0\<close> by (rule LeastI)
  have mle: "m \<le> k0" unfolding m_def using \<open>P k0\<close> by (rule Least_le)
  have before: "\<forall>k<m. \<exists>c. net env (gets st + k) url = RequestException c"
  proof (intro allI impI)
    fix k assume "k < m"
    then have "\<not> P k" unfolding m_def by (rule not_less_Least)
    then show "\<exists>c. net env (gets st + k) url = RequestException c"
      unfolding P_def by (cases "net env (gets st + k) url") auto
  qed
  from Pm obtain j where j: "net env (gets st + m) url = Json j" unfolding P_def by blast
  have mn: "m < n" using mle \<open>k0 < n\<close> by simp
  have "Inr (Some j) \<noteq> (Inr None :: py_error + 'a option)" by simp
  with fetch_first_success[OF mn before j, of d] mn show ?thesis
    by (intro exI[of _ m] exI[of _ "Inr (Some j)"]) simp
qed

lemma item_event_rounds:
  "filter item_event (concat (map (\<lambda>k. retry_round env catalog_url d (a + k) (r + k)) [0..<m])) = []"
  by (induction m) (simp_all add: retry_round_def)

lemma fetch_catalog_trace:
  assumes "0 < n"
  shows "\<exists>r st' es k. fetch_with_backoff env catalog_url n d st = (r, st') \<and> r \<noteq> Inr None
          \<and> trace st' = trace st @ es \<and> 0 < k
          \<and> requests_of es = replicate k catalog_url
          \<and> filter item_event es = []"
proof -
  from fetch_outcome[OF assms, of env catalog_url d st] obtain m r where
    m: "m < n" "r \<noteq> Inr None" and
    f: "fetch_with_backoff env catalog_url n d st =
             (r, st\<lparr>gets := gets st + (m + 1), draws := draws st + m,
                   trace := trace st
                     @ concat (map (\<lambda>k. retry_round env catalog_url d k (draws st + k)) [0..<m])
                     @ [Get catalog_url]\<rparr>)" by blast
  let ?es = "concat (map (\<lambda>k. retry_round env catalog_url d k (draws st + k)) [0..<m])
                     @ [Get catalog_url]"
  have 1: "requests_of ?es = replicate (m + 1) catalog_url"
    using requests_of_rounds[of env catalog_url d 0 "draws st" m]
    by (simp add: requests_of_append replicate_append_same)
  have 2: "filter item_event ?es = []"
    using item_event_rounds[of env d 0 "draws st" m] by simp
  have 3: "0 < m + 1" by simp
  show ?thesis
    by (intro exI[of _ r] exI[of _ "m + 1"] exI[of _ ?es] exI conjI, rule f, rule m(2), simp, rule 3, rule 1, rule 2)
qed

lemma emit_emit: "emit ys (emit xs st) = emit (xs @ ys) st"
  by (simp add: emit_def)

lemma emit_Nil: "emit [] st = st"
  by (simp add: emit_def)

lemma py_int_error: "py_int s = Inl e \<Longrightarrow> is_ValueError e"
  by (auto simp add: py_int_def Let_def split: if_splits option.splits)

lemma filename_id_error: "filename_id f = Inl e \<Longrightarrow> caught_by_scan e"
proof (cases "split_ws f")
  case Nil
  assume "filename_id f = Inl e"
  with Nil show ?thesis by (simp add: filename_id_def)
next
  case (Cons t ts)
  assume "filename_id f = Inl e"
  with Cons have "py_int t = Inl e" by (simp add: filename_id_def)
  then have "is_ValueError e" by (rule py_int_error)
  then show ?thesis by (cases e) simp_all
qed

lemma recognised_iff: "recognised f i \<longleftrightarrow> endswith f ''.vtt'' \<and> filename_id f = Inr i"
  by (simp add: recognised_def filename_id_def split: list.splits)

lemma malformed_iff: "malformed f \<longleftrightarrow> endswith f ''.vtt'' \<and> isl (filename_id f)"
  by (simp add: malformed_def filename_id_def split: list.splits)

lemma existing_index_Nil: "existing_index [] = {}"
  by (simp add: existing_index_def)

lemma existing_index_Cons:
  "existing_index (f # names) = {i. recognised f i} \<union> existing_index names"
  by (auto simp add: existing_index_def)

lemma scan_loop_closed_form:
  "scan_loop names acc st =
     (Inr (acc \<union> existing_index names),
      emit (map (\<lambda>f. Print (Skipped f)) (filter malformed names)) st)"
proof (induction names arbitrary: acc st)
  case Nil
  show ?case by (simp add: existing_index_Nil emit_Nil)
next
  case (Cons f names)
  show ?case
  proof (cases "endswith f ''.vtt''")
    case False
    then have "{i. recognised f i} = {}" "\<not> malformed f"
      by (simp_all add: recognised_iff malformed_iff)
    then show ?thesis using False Cons.IH by (simp add: existing_index_Cons)
  next
    case True
    show ?thesis
    proof (cases "filename_id f")
      case (Inr i)
      then have "{i. recognised f i} = {i}" "\<not> malformed f"
        using True by (auto simp add: recognised_iff malformed_iff)
      then show ?thesis using True Inr Cons.IH by (simp add: existing_index_Cons)
    next
      case (Inl e)
      then have "{i. recognised f i} = {}" "malformed f" "caught_by_scan e"
        using True by (auto simp add: recognised_iff malformed_iff filename_id_error)
      then show ?thesis using True Inl Cons.IH
        by (simp add: existing_index_Cons emit_emit)
    qed
  qed
qed

lemma finite_existing_index: "finite (existing_index names)"
proof (induction names)
  case Nil
  show ?case by (simp add: existing_index_Nil)
next
  case (Cons f names)
  have "{i. recognised f i} \<subseteq> (case filename_id f of Inr i \<Rightarrow> {i} | Inl _ \<Rightarrow> {})"
    by (auto simp add: recognised_iff)
  moreover have "finite (case filename_id f of Inr i \<Rightarrow> {i} | Inl _ \<Rightarrow> {})"
    by (simp split: sum.splits)
  ultimately have "finite {i. recognised f i}" by (rule finite_subset)
  with Cons show ?case by (simp add: existing_index_Cons)
qed

lemma get_existing_ids_closed_form:
  "get_existing_ids env st =
     (case listing env of
        None \<Rightarrow> (Inr {}, st)
      | Some names \<Rightarrow> (Inr (existing_index names), emit (scan_log names) st))"
proof (cases "listing env")
  case None
  then show ?thesis by (simp add: get_existing_ids_def)
next
  case (Some names)
  have "0 < card (existing_index names) \<longleftrightarrow> existing_index names \<noteq> {}"
    using finite_existing_index[of names] by (simp add: card_gt_0_iff)
  then show ?thesis using Some
    by (simp add: get_existing_ids_def scan_loop_closed_form scan_log_def emit_emit)
qed

lemma unpack_range_error: "unpack_range part = Inl e \<Longrightarrow> is_ValueError e"
  by (auto simp add: unpack_range_def split: list.splits sum.splits dest: py_int_error)

lemma parse_parts_error: "parse_parts parts acc = Inl e \<Longrightarrow> is_ValueError e"
proof (induction parts arbitrary: acc)
  case Nil
  then show ?case by simp
next
  case (Cons part parts)
  then show ?case
    by (auto split: if_splits sum.splits prod.splits dest: py_int_error unpack_range_error)
qed

lemma validate_and_parse_input_error:
  "validate_and_parse_input arg = Inl e \<Longrightarrow> is_ValueError e"
  by (auto simp add: validate_and_parse_input_def split: if_splits dest: parse_parts_error)

lemma parse_parts_finite:
  "parse_parts parts acc = Inr s \<Longrightarrow> finite acc \<Longrightarrow>
     finite s \<and> acc \<subseteq> s \<and> (parts \<noteq> [] \<longrightarrow> s \<noteq> {})"
proof (induction parts arbitrary: acc)
  case Nil
  then show ?case by simp
next
  case (Cons part parts)
  show ?case
  proof (cases "CHR ''-'' \<in> set part")
    case True
    with Cons.prems(1) obtain a b where ab: "unpack_range part = Inr (a, b)" "a \<le> b"
      and r: "parse_parts parts (acc \<union> {a..b}) = Inr s"
      by (auto split: sum.splits if_splits)
    have "finite (acc \<union> {a..b})" using Cons.prems(2) by simp
    from Cons.IH[OF r this] have "finite s" "acc \<union> {a..b} \<subseteq> s" by simp_all
    moreover have "a \<in> {a..b}" using ab(2) by simp
    ultimately show ?thesis by auto
  next
    case False
    with Cons.prems(1) obtain n where r: "parse_parts parts (insert n acc) = Inr s"
      by (auto split: sum.splits)
    have "finite (insert n acc)" using Cons.prems(2) by simp
    from Cons.IH[OF r this] have "finite s" "insert n acc \<subseteq> s" by simp_all
    then show ?thesis by auto
  qed
qed

lemma split_on_not_Nil: "split_on sep s \<noteq> []"
  by (induction s) (simp_all split: list.splits)

lemma explicit_ids_finite:
  assumes "arg \<noteq> ''all''" and "validate_and_parse_input arg = Inr ids"
  shows "finite ids \<and> ids \<noteq> {}"
proof -
  from assms have "parse_parts (split_on (CHR '','') arg) {} = Inr ids"
    by (simp add: validate_and_parse_input_def split: if_splits)
  from parse_parts_finite[OF this] split_on_not_Nil[of "CHR '',''" arg] show ?thesis by simp
qed

lemma resolve_ids_explicit:
  assumes "finite ids" and "ids \<noteq> {}"
  shows "resolve_ids env content ids st =
           (case listing env of
              None \<Rightarrow> (Inr ids, st)
            | Some names \<Rightarrow> (Inr (ids - existing_index names), emit (scan_log names) st))"
proof -
  have c: "card ids \<noteq> 0" using assms by simp
  show ?thesis
  proof (cases "listing env")
    case None
    then show ?thesis using c by (simp add: resolve_ids_def get_existing_ids_closed_form)
  next
    case (Some names)
    have "(if 0 < card (existing_index names) then ids - existing_index names else ids)
            = ids - existing_index names"
      using finite_existing_index[of names] by (auto simp add: card_gt_0_iff)
    then show ?thesis using c Some
      by (simp add: resolve_ids_def get_existing_ids_closed_form)
  qed
qed

lemma item_event_scan_log: "filter item_event (scan_log names) = []"
  by (simp add: scan_log_def filter_empty_conv)

lemma requests_of_scan_log: "requests_of (scan_log names) = []"
proof -
  have "requests_of (map (\<lambda>f. Print (Skipped f)) fs) = []" for fs
    by (induction fs) simp_all
  then show ?thesis by (simp add: scan_log_def requests_of_append)
qed

lemma filter_item_event_emit:
  "filter item_event es = [] \<Longrightarrow>
     filter item_event (trace (emit es st)) = filter item_event (trace st)"
  by (simp add: emit_def)

lemma requests_of_emit:
  "requests_of (trace (emit es st)) = requests_of (trace st) @ requests_of es"
  by (simp add: emit_def requests_of_append)

lemma resolve_ids_quiet:
  assumes "resolve_ids env content ids st = (r, st')"
  shows "filter item_event (trace st') = filter item_event (trace st)
         \<and> requests_of (trace st') = requests_of (trace st)"
proof -
  have g: "\<exists>q es. get_existing_ids env s = (q, emit es s) \<and> filter item_event es = []
            \<and> requests_of es = []" for s :: state
  proof (cases "listing env")
    case None
    then have "get_existing_ids env s = (Inr {}, emit [] s)"
      by (simp add: get_existing_ids_closed_form emit_Nil)
    then show ?thesis by (intro exI[of _ "[]"] exI) simp
  next
    case (Some names)
    then have "get_existing_ids env s = (Inr (existing_index names), emit (scan_log names) s)"
      by (simp add: get_existing_ids_closed_form)
    then show ?thesis
      using item_event_scan_log requests_of_scan_log by blast
  qed
  have "\<exists>es. st' = emit es st \<and> filter item_event es = [] \<and> requests_of es = []"
  proof (cases "card ids = 0")
    case False
    from g[of st] obtain q es where q: "get_existing_ids env st = (q, emit es st)"
      "filter item_event es = []" "requests_of es = []" by blast
    from assms False q(1) have "st' = emit es st"
      by (auto simp add: resolve_ids_def split: sum.splits)
    with q show ?thesis by blast
  next
    case True
    show ?thesis
    proof (cases "modules content")
      case (Inl e)
      with assms True have "st' = emit [] st" by (simp add: resolve_ids_def emit_Nil)
      then show ?thesis by (intro exI[of _ "[]"]) simp
    next
      case (Inr ms)
      let ?s = "emit [Print (Fetching_until (max_id_loop ms 1))] st"
      from g[of ?s] obtain q es where q: "get_existing_ids env ?s = (q, emit es ?s)"
        "filter item_event es = []" "requests_of es = []" by blast
      from assms True Inr q(1) have "st' = emit es ?s"
        by (auto simp add: resolve_ids_def Let_def split: sum.splits)
      then have "st' = emit (Print (Fetching_until (max_id_loop ms 1)) # es) st"
        by (simp add: emit_emit)
      with q show ?thesis by (intro exI[of _ "Print (Fetching_until (max_id_loop ms 1)) # es"]) simp
    qed
  qed
  then show ?thesis by (auto simp add: filter_item_event_emit requests_of_emit)
qed

lemma fetch_catalog_quiet:
  assumes "fetch_with_backoff env catalog_url 5 1 st = (r, st')"
  shows "r \<noteq> Inr None \<and> filter item_event (trace st') = filter item_event (trace st)
         \<and> (\<exists>k>0. requests_of (trace st') = requests_of (trace st) @ replicate k catalog_url)"
proof -
  have "0 < (5::nat)" by simp
  from fetch_catalog_trace[OF this, of env 1 st] assms show ?thesis
    by (auto simp add: requests_of_append)
qed

text \<open>
  Claim C10. When the catalog holds an entry whose id is in the final set of ids and whose
  plan carries a transcript reference but lacks \<open>titleJP\<close> or \<open>titleEN\<close>, the filtering
  loop raises a \<open>KeyError\<close> that nothing catches: it is the result of \<open>main\<close>, the run ends
  in the state reached after the ids were resolved, and up to there no event of the
  processing of a work item has happened. The entry is not skipped, and the error is not
  reported as the failure of one video.
\<close>

theorem missing_title_aborts_run:
  assumes "validate_and_parse_input arg = Inr ids"
    and "fetch_with_backoff env catalog_url 5 1 (emit [Session_open] st)
           = (Inr (Some (Catalog ms)), st2)"
    and "resolve_ids env (Some (Catalog ms)) ids st2 = (Inr ids1, st3)"
    and "v \<in> set ms" and "entry_id v \<in> ids1" and "entry_plan v = Some p"
    and "transcriptId p = Some t" and "titleJP p = None \<or> titleEN p = None"
  shows "\<exists>k. main env arg st = (Inl (KeyError k), st3)
           \<and> (k = ''titleJP'' \<or> k = ''titleEN'')
           \<and> collect_videos ms ids1 [] = Inl (KeyError k)
           \<and> filter item_event (trace st3) = filter item_event (trace st)"
proof -
  have "selected ids1 v \<and> \<not> has_titles v"
    using assms(5-8) by (auto simp add: selected_def has_titles_def)
  with assms(4) have "\<exists>v\<in>set ms. selected ids1 v \<and> \<not> has_titles v" by blast
  from collect_videos_missing_title[OF this, of "[]"] obtain k where
    k: "collect_videos ms ids1 [] = Inl (KeyError k)" "k = ''titleJP'' \<or> k = ''titleEN''"
    by blast
  have m: "main env arg st = (Inl (KeyError k), st3)"
    using assms(1-3) k(1) by (simp add: main_def parse_argument_def modules_def)
  have "filter item_event (trace st2) = filter item_event (trace (emit [Session_open] st))"
    using fetch_catalog_quiet[OF assms(2)] by simp
  moreover have "filter item_event (trace st3) = filter item_event (trace st2)"
    using resolve_ids_quiet[OF assms(3)] by simp
  ultimately have "filter item_event (trace st3) = filter item_event (trace st)"
    by (simp add: emit_def)
  with m k show ?thesis by blast
qed

lemma fullmatch_one: "fullmatch pattern ''1''"
  by (simp add: fullmatch_def pattern_def token_pattern_def is_digit_def digit_val_def)

lemma py_int_one: "py_int ''1'' = Inr 1"
  by (simp add: py_int_def strip_def is_space_def digit_val_def Let_def)

lemma parse_one: "validate_and_parse_input ''1'' = Inr {1}"
  by (simp add: validate_and_parse_input_def fullmatch_one py_int_one)

lemma fetch_untitled_catalog:
  "fetch_with_backoff untitled_catalog catalog_url 5 1 (emit [Session_open] initial_state)
     = (Inr (Some (Catalog
         [\<lparr>entry_id = 1,
           entry_plan = Some \<lparr>titleJP = Some ''a'', titleEN = None, transcriptId = Some 10\<rparr>\<rparr>])),
        \<lparr>gets = 1, draws = 0, trace = [Session_open, Get catalog_url]\<rparr>)"
  by (simp add: fetch_with_backoff_def attempts_success untitled_catalog_def emit_def
        initial_state_def)

theorem missing_title_aborts_run_witness:
  "\<exists>k. main untitled_catalog ''1'' initial_state
          = (Inl (KeyError k), \<lparr>gets = 1, draws = 0, trace = [Session_open, Get catalog_url]\<rparr>)
        \<and> (k = ''titleJP'' \<or> k = ''titleEN'')"
proof -
  let ?p = "\<lparr>titleJP = Some ''a'', titleEN = None, transcriptId = Some 10\<rparr>"
  let ?v = "\<lparr>entry_id = 1, entry_plan = Some ?p\<rparr>"
  let ?st = "\<lparr>gets = 1, draws = 0, trace = [Session_open, Get catalog_url]\<rparr>"
  have r: "resolve_ids untitled_catalog (Some (Catalog [?v])) {1} ?st = (Inr {1}, ?st)"
    by (simp add: resolve_ids_def get_existing_ids_def untitled_catalog_def)
  have "\<exists>k. main untitled_catalog ''1'' initial_state = (Inl (KeyError k), ?st)
           \<and> (k = ''titleJP'' \<or> k = ''titleEN'')
           \<and> collect_videos [?v] {1} [] = Inl (KeyError k)
           \<and> filter item_event (trace ?st) = filter item_event (trace initial_state)"
    by (rule missing_title_aborts_run[OF parse_one fetch_untitled_catalog r, of ?v ?p 10]) simp_all
  then show ?thesis by blast
qed

text \<open>
  The filter does not include every entry that has a requested id, a plan and a transcript
  reference: on such an entry without an English title it raises.
\<close>

theorem filter_counterexample:
  "entry_id \<lparr>entry_id = 1,
              entry_plan = Some \<lparr>titleJP = Some ''a'', titleEN = None, transcriptId = Some 10\<rparr>\<rparr> \<in> {1}
   \<and> collect_videos
        [\<lparr>entry_id = 1,
          entry_plan = Some \<lparr>titleJP = Some ''a'', titleEN = None, transcriptId = Some 10\<rparr>\<rparr>]
        {1} []
      = Inl (KeyError ''titleEN'')"
  by simp

text \<open>
  Claim C9, amended. Entries that are not requested or lack the plan or the transcript
  reference never change the result of the filter, so they are left out without any
  error. When every selected entry carries both titles, the filter returns, in catalog
  order, exactly the work items of the selected entries, each with the title made of
  the Japanese title, \<open> | \<close> and the English title.
\<close>

theorem filter_selects_entries:
  "collect_videos ms ids [] = collect_videos (filter (selected ids) ms) ids []
   \<and> ((\<forall>v\<in>set ms. selected ids v \<longrightarrow> has_titles v) \<longrightarrow>
        (\<exists>vs. collect_videos ms ids [] = Inr vs
           \<and> map Some vs = map work_item (filter (selected ids) ms)
           \<and> map video_id vs = map entry_id (filter (selected ids) ms)))"
proof (intro conjI impI)
  show "collect_videos ms ids [] = collect_videos (filter (selected ids) ms) ids []"
    by (rule collect_videos_selected_only)
next
  assume a: "\<forall>v\<in>set ms. selected ids v \<longrightarrow> has_titles v"
  from collect_videos_complete[OF a, of "[]"] obtain vs where
    vs: "collect_videos ms ids [] = Inr vs"
        "map Some vs = map work_item (filter (selected ids) ms)" by auto
  have "map (map_option video_id) (map Some vs)
          = map (map_option video_id) (map work_item (filter (selected ids) ms))"
    by (simp only: vs(2))
  moreover have "map_option video_id (work_item v) = Some (entry_id v)"
    if "v \<in> set (filter (selected ids) ms)" for v
  proof -
    from that a have "selected ids v" "has_titles v" by simp_all
    then show ?thesis
      by (auto simp add: selected_def has_titles_def work_item_def split: option.splits)
  qed
  ultimately have "map Some (map video_id vs) = map Some (map entry_id (filter (selected ids) ms))"
    by (simp add: map_idI cong: map_cong)
  then have "map video_id vs = map entry_id (filter (selected ids) ms)"
    by (simp add: inj_map_eq_map[OF inj_Some] del: map_map)
  with vs show "\<exists>vs. collect_videos ms ids [] = Inr vs
           \<and> map Some vs = map work_item (filter (selected ids) ms)
           \<and> map video_id vs = map entry_id (filter (selected ids) ms)" by blast
qed

theorem filter_selects_entries_witness:
  "collect_videos sample_catalog {1, 2, 3, 4} [] =
     Inr [\<lparr>video_id = 3, title = ''c | C'', transcript_id = 30\<rparr>,
          \<lparr>video_id = 1, title = ''a | A'', transcript_id = 10\<rparr>]"
proof -
  have h: "\<forall>v\<in>set sample_catalog. selected {1, 2, 3, 4} v \<longrightarrow> has_titles v"
    by (simp add: sample_catalog_def selected_def has_titles_def)
  from filter_selects_entries[of sample_catalog "{1, 2, 3, 4}", THEN conjunct2, THEN mp, OF h]
  obtain vs where vs: "collect_videos sample_catalog {1, 2, 3, 4} [] = Inr vs"
    "map Some vs = map work_item (filter (selected {1, 2, 3, 4}) sample_catalog)" by blast
  from vs(2) have "map Some vs = map Some [\<lparr>video_id = 3, title = ''c | C'', transcript_id = 30\<rparr>,
          \<lparr>video_id = 1, title = ''a | A'', transcript_id = 10\<rparr>]"
    by (simp add: sample_catalog_def selected_def work_item_def)
  then have "vs = [\<lparr>video_id = 3, title = ''c | C'', transcript_id = 30\<rparr>,
          \<lparr>video_id = 1, title = ''a | A'', transcript_id = 10\<rparr>]"
    by (simp only: inj_map_eq_map[OF inj_Some])
  with vs(1) show ?thesis by simp
qed

section \<open>Properties of whole runs\<close>

lemma collect_videos_no_ids: "collect_videos ms {} acc = Inr acc"
  by (induction ms) simp_all

text \<open>
  Claim C1 (not met by the code). For every expression that \<open>validate_and_parse_input\<close>
  rejects, \<open>main\<close> prints the error and then goes on: it opens the session and sends at
  least one request for the catalog. The run ends with an exception only after that
  (the failure of the fetch, or the unbound variable \<open>ids\<close> at line 128).
\<close>

theorem invalid_expression_reaches_network:
  assumes "validate_and_parse_input arg = Inl e"
  shows "\<exists>r st' es k. main env arg st = (r, st') \<and> r \<noteq> Inr ()
           \<and> trace st' = trace st @ [Print (Error_line e), Session_open] @ es
           \<and> 0 < k \<and> requests_of es = replicate k catalog_url"
proof -
  have v: "is_ValueError e" using assms by (rule validate_and_parse_input_error)
  let ?s = "emit [Session_open] (emit [Print (Error_line e)] st)"
  have "0 < (5::nat)" by simp
  from fetch_catalog_trace[OF this, of env 1 ?s] obtain r2 st2 es k where
    f: "fetch_with_backoff env catalog_url 5 1 ?s = (r2, st2)" and
    t: "trace st2 = trace ?s @ es" and k: "0 < k" "requests_of es = replicate k catalog_url"
    by blast
  let ?r = "case r2 of Inl x \<Rightarrow> Inl x | Inr _ \<Rightarrow> Inl (UnboundLocalError ''ids'')"
  have m: "main env arg st = (?r, st2)"
    using assms v f by (simp add: main_def parse_argument_def split: sum.splits)
  have "?r \<noteq> Inr ()" by (simp split: sum.splits)
  moreover have "trace st2 = trace st @ [Print (Error_line e), Session_open] @ es"
    using t by (simp add: emit_def)
  ultimately show ?thesis using m k by blast
qed

lemma parse_invalid_range: "validate_and_parse_input ''5-3'' = Inl (ValueError ''Invalid range'')"
  by (simp add: validate_and_parse_input_def fullmatch_def pattern_def token_pattern_def
        is_digit_def digit_val_def unpack_range_def py_int_def strip_def is_space_def Let_def)

theorem invalid_expression_reaches_network_witness:
  "\<exists>r st' es. main untitled_catalog ''5-3'' initial_state = (r, st') \<and> r \<noteq> Inr ()
      \<and> trace st' = [Print (Error_line (ValueError ''Invalid range'')), Session_open] @ es
      \<and> requests_of es \<noteq> []"
proof -
  from invalid_expression_reaches_network[OF parse_invalid_range, of untitled_catalog initial_state]
  obtain r st' es k where
    "main untitled_catalog ''5-3'' initial_state = (r, st')" "r \<noteq> Inr ()"
    "trace st' = trace initial_state
       @ [Print (Error_line (ValueError ''Invalid range'')), Session_open] @ es"
    "0 < k" "requests_of es = replicate k catalog_url" by blast
  then show ?thesis by (auto simp add: initial_state_def)
qed

text \<open>
  The run on the expression \<open>5-3\<close> with a server that answers at once.
\<close>

lemma invalid_range_run:
  "main untitled_catalog ''5-3'' initial_state =
     (Inl (UnboundLocalError ''ids''),
      \<lparr>gets = 1, draws = 0,
       trace = [Print (Error_line (ValueError ''Invalid range'')), Session_open,
                Get catalog_url]\<rparr>)"
  by (simp add: main_def parse_argument_def parse_invalid_range fetch_with_backoff_def
        attempts_success untitled_catalog_def emit_def initial_state_def)

text \<open>
  Claim C2. For an explicit expression (not \<open>all\<close>) whose ids are all in the index of
  existing ids, the only requests of the run are those of the fetch of the catalog, which
  every run starts with: no request goes to another address, and no event of the
  processing of a work item happens. When the catalog is fetched, the set of ids left
  after the subtraction is empty, the filter gives no work item, and the run ends
  normally in the state reached after the ids were resolved.
\<close>

theorem rerun_fetches_only_catalog:
  assumes "arg \<noteq> ''all''" and "validate_and_parse_input arg = Inr ids"
    and "listing env = Some names" and "ids \<subseteq> existing_index names"
  shows "\<exists>r2 st2 r st'.
           fetch_with_backoff env catalog_url 5 1 (emit [Session_open] st) = (r2, st2)
           \<and> main env arg st = (r, st')
           \<and> requests_of (trace st') = requests_of (trace st2)
           \<and> (\<exists>k>0. requests_of (trace st2) = requests_of (trace st) @ replicate k catalog_url)
           \<and> filter item_event (trace st') = filter item_event (trace st)
           \<and> (\<forall>ms. r2 = Inr (Some (Catalog ms)) \<longrightarrow>
                 resolve_ids env (Some (Catalog ms)) ids st2 = (Inr {}, st')
                 \<and> collect_videos ms {} [] = Inr []
                 \<and> r = Inr ())"
proof -
  obtain r2 st2 where
    f: "fetch_with_backoff env catalog_url 5 1 (emit [Session_open] st) = (r2, st2)"
    by (cases "fetch_with_backoff env catalog_url 5 1 (emit [Session_open] st)")
  from fetch_catalog_quiet[OF f] obtain k where
    q: "filter item_event (trace st2) = filter item_event (trace st)"
       "0 < k" "requests_of (trace st2) = requests_of (trace st) @ replicate k catalog_url"
    by (auto simp add: emit_def requests_of_append)
  from explicit_ids_finite[OF assms(1,2)] have fin: "finite ids" "ids \<noteq> {}" by simp_all
  have e: "ids - existing_index names = {}" using assms(4) by auto
  have res: "resolve_ids env content ids st2 = (Inr {}, emit (scan_log names) st2)" for content
    using resolve_ids_explicit[OF fin, of env content st2] assms(3) e by simp
  have p: "parse_argument arg st = (Inr (Some ids), st)"
    using assms(2) by (simp add: parse_argument_def)
  obtain r st' where m: "main env arg st = (r, st')" by (cases "main env arg st")
  have cases: "st' = st2 \<or> st' = emit (scan_log names) st2"
    and ok: "\<forall>ms. r2 = Inr (Some (Catalog ms)) \<longrightarrow>
               st' = emit (scan_log names) st2 \<and> r = Inr ()"
    using m p f res
    by (auto simp add: main_def collect_videos_no_ids modules_def
          split: sum.splits option.splits body.splits)
  have rq: "requests_of (trace st') = requests_of (trace st2)"
    using cases by (auto simp add: requests_of_emit requests_of_scan_log)
  have ie: "filter item_event (trace st') = filter item_event (trace st)"
    using cases q(1) by (auto simp add: filter_item_event_emit item_event_scan_log)
  have ex: "\<exists>k>0. requests_of (trace st2) = requests_of (trace st) @ replicate k catalog_url"
    using q(2,3) by blast
  have last: "\<forall>ms. r2 = Inr (Some (Catalog ms)) \<longrightarrow>
                 resolve_ids env (Some (Catalog ms)) ids st2 = (Inr {}, st')
                 \<and> collect_videos ms {} [] = Inr []
                 \<and> r = Inr ()"
    using ok res by (simp add: collect_videos_no_ids)
  show ?thesis
    using f m rq ex ie last by blast
qed

lemma rerun_existing: "{1} \<subseteq> existing_index [''0001 a | A.vtt'', ''0001 a | A.txt'']"
  by (simp add: existing_index_def recognised_def endswith_def split_ws_def is_space_def
        py_int_def strip_def digit_val_def Let_def)

lemma fetch_rerun_env:
  "fetch_with_backoff rerun_env catalog_url 5 1 (emit [Session_open] initial_state)
     = (Inr (Some (Catalog sample_catalog)),
        \<lparr>gets = 1, draws = 0, trace = [Session_open, Get catalog_url]\<rparr>)"
  by (simp add: fetch_with_backoff_def attempts_success rerun_env_def emit_def
        initial_state_def)

theorem rerun_fetches_only_catalog_witness:
  "\<exists>st'. main rerun_env ''1'' initial_state = (Inr (), st')
      \<and> requests_of (trace st') = [catalog_url]
      \<and> resolve_ids rerun_env (Some (Catalog sample_catalog)) {1}
           \<lparr>gets = 1, draws = 0, trace = [Session_open, Get catalog_url]\<rparr> = (Inr {}, st')"
proof -
  have a: "''1'' \<noteq> ''all''" by simp
  have l: "listing rerun_env = Some [''0001 a | A.vtt'', ''0001 a | A.txt'']"
    by (simp add: rerun_env_def)
  from rerun_fetches_only_catalog[OF a parse_one l rerun_existing, of initial_state]
  obtain r2 st2 r st' where w:
    "fetch_with_backoff rerun_env catalog_url 5 1 (emit [Session_open] initial_state) = (r2, st2)"
    "main rerun_env ''1'' initial_state = (r, st')"
    "requests_of (trace st') = requests_of (trace st2)"
    "\<forall>ms. r2 = Inr (Some (Catalog ms)) \<longrightarrow>
        resolve_ids rerun_env (Some (Catalog ms)) {1} st2 = (Inr {}, st')
        \<and> collect_videos ms {} [] = Inr [] \<and> r = Inr ()"
    by blast
  from w(1) have r2: "r2 = Inr (Some (Catalog sample_catalog))"
    and st2: "st2 = \<lparr>gets = 1, draws = 0, trace = [Session_open, Get catalog_url]\<rparr>"
    by (simp_all add: fetch_rerun_env)
  from w(4) r2 have "resolve_ids rerun_env (Some (Catalog sample_catalog)) {1} st2 = (Inr {}, st')"
    and "r = Inr ()" by simp_all
  moreover from w(3) have "requests_of (trace st') = [catalog_url]" by (simp add: st2)
  ultimately show ?thesis using w(2) st2 by auto
qed

end
